theory Spec2Isabelle
  imports Main "HOL-Library.Char_ord" "HOL-Library.List_Lexorder" "HOL-Library.Multiset"
begin

section \<open>Memory model\<close>

text \<open>
  Go values that are reached through a pointer live in a heap: an address is a natural
  number, \<open>mem\<close> gives the object stored at an address and \<open>fresh\<close> is the first address
  that has not been handed out yet. A pointer \<open>*T\<close> is an optional address, \<open>None\<close> being
  \<open>nil\<close>. Dereferencing \<open>nil\<close> panics; the panic is a value of type \<open>error\<close>.
\<close>

type_synonym addr = nat
type_synonym ptr = "addr option"

datatype error = NilDereference | IndexOutOfRange | MakesliceLenOutOfRange

record 'u heap =
  mem :: "addr \<Rightarrow> 'u"
  fresh :: addr

text \<open>\<open>&u\<close> for a local \<open>u\<close> that escapes, and \<open>&T{...}\<close>: a new object at a new address.\<close>

definition alloc :: "'u heap \<Rightarrow> 'u \<Rightarrow> 'u heap \<times> addr" where
  "alloc h u = (h\<lparr>mem := (mem h)(fresh h := u), fresh := Suc (fresh h)\<rparr>, fresh h)"

text \<open>\<open>*p\<close> and the read half of \<open>p.F\<close>.\<close>

definition deref :: "'u heap \<Rightarrow> ptr \<Rightarrow> error + 'u" where
  "deref h p = (case p of None \<Rightarrow> Inl NilDereference | Some a \<Rightarrow> Inr (mem h a))"

text \<open>
  \<open>p.F = v\<close> (and \<open>p.F++\<close>, ...): the object behind \<open>p\<close> is replaced by \<open>f\<close> of itself,
  where \<open>f\<close> is the field update.
\<close>

definition assign :: "'u heap \<Rightarrow> ptr \<Rightarrow> ('u \<Rightarrow> 'u) \<Rightarrow> error + 'u heap" where
  "assign h p f =
     (case p of
        None \<Rightarrow> Inl NilDereference
      | Some a \<Rightarrow> Inr (h\<lparr>mem := (mem h)(a := f (mem h a))\<rparr>))"

text \<open>Every address held in \<open>ps\<close> has been allocated.\<close>

definition allocated :: "'u heap \<Rightarrow> ptr list \<Rightarrow> bool" where
  "allocated h ps = list_all (\<lambda>p. case p of None \<Rightarrow> True | Some a \<Rightarrow> a < fresh h) ps"

text \<open>
  A slice value is either the \<open>nil\<close> slice or a slice with its elements (possibly none):
  \<open>len\<close> and \<open>range\<close> do not tell the two apart, \<open>encoding/json\<close> does. The functions
  below only read their argument slices and return slices made by \<open>make\<close>, whose backing
  array nothing else refers to, so a slice is represented by its contents here. The
  backing arrays themselves are modelled further down, where an element is assigned
  through a copy of a slice.
\<close>

datatype 'a slice = NilSlice | Slice "'a list"

fun elems :: "'a slice \<Rightarrow> 'a list" where
  "elems NilSlice = []"
| "elems (Slice xs) = xs"

definition len :: "'a slice \<Rightarrow> nat" where
  "len s = length (elems s)"

text \<open>\<open>s[i]\<close>, with the run-time bounds check.\<close>

definition index :: "'a slice \<Rightarrow> nat \<Rightarrow> error + 'a" where
  "index s i = (if i < len s then Inr (elems s ! i) else Inl IndexOutOfRange)"

text \<open>\<open>append([]T(nil), s...)\<close>: appending nothing to the \<open>nil\<close> slice returns it.\<close>

definition append_nil :: "'a slice \<Rightarrow> 'a slice" where
  "append_nil s = (if elems s = [] then NilSlice else Slice (elems s))"

section \<open>The JSON encoder\<close>

text \<open>
  \<open>json.Marshal\<close> belongs to Go's standard library. Its output is modelled as the JSON
  document it writes, a tree, not as the bytes: the properties below are about which
  keys and which \<open>null\<close> tokens the document has. As the library documents, a struct
  encodes as an object with one member per exported field in declaration order, a \<open>nil\<close>
  pointer and a \<open>nil\<close> slice encode as \<open>null\<close>, any other slice as an array, and a field
  tagged \<open>omitempty\<close> is left out when it is a \<open>nil\<close> pointer or a slice of length zero.
\<close>

datatype json =
    JNull
  | JNumber int
  | JString string
  | JArray "json list"
  | JObject "(string \<times> json) list"

text \<open>The number of \<open>null\<close> tokens of a document.\<close>

fun nulls :: "json \<Rightarrow> nat" where
  "nulls JNull = 1"
| "nulls (JNumber n) = 0"
| "nulls (JString s) = 0"
| "nulls (JArray js) = sum_list (map nulls js)"
| "nulls (JObject kvs) = sum_list (map (\<lambda>kv. nulls (snd kv)) kvs)"

definition encPtr :: "('u \<Rightarrow> json) \<Rightarrow> 'u heap \<Rightarrow> ptr \<Rightarrow> json" where
  "encPtr enc h p = (case p of None \<Rightarrow> JNull | Some a \<Rightarrow> enc (mem h a))"

definition encSlice :: "('a \<Rightarrow> json) \<Rightarrow> 'a slice \<Rightarrow> json" where
  "encSlice enc s = (case s of NilSlice \<Rightarrow> JNull | Slice xs \<Rightarrow> JArray (map enc xs))"

text \<open>\<open>json.Marshal(map[string]any{"users": v})\<close>, given the encoding of \<open>v\<close>.\<close>

definition marshalUsersMap :: "json \<Rightarrow> json" where
  "marshalUsersMap v = JObject [(''users'', v)]"

section \<open>Package main: the three container shapes\<close>

record User_root =
  ID :: nat
  Name :: string
  Age :: nat
  Email :: string
  City :: string

definition encUser_root :: "User_root \<Rightarrow> json" where
  "encUser_root u =
     JObject [(''ID'', JNumber (int (User_root.ID u))),
              (''Name'', JString (User_root.Name u)),
              (''Age'', JNumber (int (User_root.Age u))),
              (''Email'', JString (User_root.Email u)),
              (''City'', JString (User_root.City u))]"

definition zero_User_root :: User_root where
  "zero_User_root = \<lparr>User_root.ID = 0, User_root.Name = [], User_root.Age = 0,
                     User_root.Email = [], User_root.City = []\<rparr>"

definition no_users_root :: "User_root heap" where
  "no_users_root = \<lparr>mem = (\<lambda>a. zero_User_root), fresh = 0\<rparr>"

text \<open>
  The three shapes. \<open>Users\<close> of \<open>FugaB\<close> is a pointer to a slice: \<open>None\<close> is the \<open>nil\<close>
  pointer, \<open>Some s\<close> points at the slice \<open>s\<close>. \<open>Users\<close> of \<open>PiyoC\<close> holds pointers into
  a heap of users. All three fields carry the tag \<open>json:"users,omitempty"\<close>.
\<close>

record HogeA =
  Users :: "User_root slice"

record FugaB =
  Users :: "User_root slice option"

record PiyoC =
  Users :: "ptr slice"

text \<open>
  \<open>isEmptyValue\<close> of \<open>encoding/json\<close>, at the two kinds of value that occur: a slice is
  empty when its length is zero, a pointer when it is \<open>nil\<close>.
\<close>

definition isEmptyValue_slice :: "'a slice \<Rightarrow> bool" where
  "isEmptyValue_slice s = (len s = 0)"

definition isEmptyValue_ptr :: "'a option \<Rightarrow> bool" where
  "isEmptyValue_ptr p = (p = None)"

text \<open>The members that a field tagged \<open>name,omitempty\<close> contributes to its object.\<close>

definition omitempty :: "string \<Rightarrow> bool \<Rightarrow> json \<Rightarrow> (string \<times> json) list" where
  "omitempty name is_empty v = (if is_empty then [] else [(name, v)])"

text \<open>\<open>printJSON\<close> prints \<open>json.Marshal(v)\<close>; these are the documents for the three types.\<close>

definition marshal_HogeA :: "HogeA \<Rightarrow> json" where
  "marshal_HogeA a =
     JObject (omitempty ''users'' (isEmptyValue_slice (HogeA.Users a))
                (encSlice encUser_root (HogeA.Users a)))"

definition marshal_FugaB :: "FugaB \<Rightarrow> json" where
  "marshal_FugaB b =
     JObject (omitempty ''users'' (isEmptyValue_ptr (FugaB.Users b))
                (case FugaB.Users b of None \<Rightarrow> JNull | Some s \<Rightarrow> encSlice encUser_root s))"

definition marshal_PiyoC :: "User_root heap \<Rightarrow> PiyoC \<Rightarrow> json" where
  "marshal_PiyoC h c =
     JObject (omitempty ''users'' (isEmptyValue_slice (PiyoC.Users c))
                (encSlice (encPtr encUser_root h) (PiyoC.Users c)))"

subsection \<open>Value slices with their backing arrays\<close>

text \<open>
  \<open>a2.Users[0].Name = ...\<close> writes into the backing array of \<open>a2.Users\<close>, and whether
  \<open>a.Users\<close> sees the write depends on whether the two slices share that array. So here
  a slice is a header: \<open>nil\<close>, or the address of a backing array with a length, and the
  arrays live in a heap. \<open>view\<close> reads the contents of a header. (The program never
  reslices, so a header needs no offset; spare capacity is never observed either.)
\<close>

datatype hdr = NilHdr | Hdr addr nat

type_synonym 'a arrays = "'a list heap"

definition view :: "'a arrays \<Rightarrow> hdr \<Rightarrow> 'a slice" where
  "view st s = (case s of NilHdr \<Rightarrow> NilSlice | Hdr a n \<Rightarrow> Slice (take n (mem st a)))"

definition valid_hdr :: "'a arrays \<Rightarrow> hdr \<Rightarrow> bool" where
  "valid_hdr st s =
     (case s of NilHdr \<Rightarrow> True | Hdr a n \<Rightarrow> a < fresh st \<and> n \<le> length (mem st a))"

text \<open>A slice literal \<open>[]T{x1, ..., xn}\<close>: a new array.\<close>

definition slice_lit :: "'a arrays \<Rightarrow> 'a list \<Rightarrow> 'a arrays \<times> hdr" where
  "slice_lit st xs = (let (st', a) = alloc st xs in (st', Hdr a (length xs)))"

text \<open>
  \<open>append([]T(nil), s...)\<close>: the \<open>nil\<close> slice has capacity zero, so any element to add
  makes \<open>append\<close> allocate a new array and copy the elements into it; with nothing to add
  the \<open>nil\<close> slice comes back.
\<close>

definition append_nil_hdr :: "'a arrays \<Rightarrow> hdr \<Rightarrow> 'a arrays \<times> hdr" where
  "append_nil_hdr st s =
     (let xs = elems (view st s)
      in if xs = [] then (st, NilHdr)
         else (let (st', a) = alloc st xs in (st', Hdr a (length xs))))"

text \<open>\<open>s[i].F = v\<close>, the field update being \<open>f\<close>; the index is checked.\<close>

definition assign_elem :: "'a arrays \<Rightarrow> hdr \<Rightarrow> nat \<Rightarrow> ('a \<Rightarrow> 'a) \<Rightarrow> error + 'a arrays" where
  "assign_elem st s i f =
     (case s of
        NilHdr \<Rightarrow> Inl IndexOutOfRange
      | Hdr a n \<Rightarrow>
          if i < n then Inr (st\<lparr>mem := (mem st)(a := (mem st a)[i := f (mem st a ! i)])\<rparr>)
          else Inl IndexOutOfRange)"

text \<open>
  Lines 40 to 46 of \<open>main\<close>: \<open>a.Users\<close> is a literal with Alice, \<open>a2.Users\<close> the copy whose
  first name is then changed; the result is the two names that are printed.
\<close>

definition alice_root :: User_root where
  "alice_root = \<lparr>User_root.ID = 1, User_root.Name = ''Alice'', User_root.Age = 20,
                 User_root.Email = ''a@example.com'', User_root.City = ''Sendai''\<rparr>"

definition no_arrays :: "'a arrays" where
  "no_arrays = \<lparr>mem = (\<lambda>a. []), fresh = 0\<rparr>"

definition main_A_copy :: "error + string \<times> string" where
  "main_A_copy =
     (let (st1, a_Users) = slice_lit no_arrays [alice_root];
          (st2, a2_Users) = append_nil_hdr st1 a_Users
      in case assign_elem st2 a2_Users 0 (\<lambda>u. u\<lparr>User_root.Name := ''Changed in a2''\<rparr>) of
           Inl e \<Rightarrow> Inl e
         | Inr st3 \<Rightarrow>
             (case index (view st3 a_Users) 0 of
                Inl e \<Rightarrow> Inl e
              | Inr x \<Rightarrow>
                  (case index (view st3 a2_Users) 0 of
                     Inl e \<Rightarrow> Inl e
                   | Inr y \<Rightarrow> Inr (User_root.Name x, User_root.Name y))))"

subsection \<open>The record generators of the benchmarks\<close>

text \<open>\<open>strconv.Itoa\<close>: the decimal digits, after a minus sign for a negative number.\<close>

fun digits :: "nat \<Rightarrow> string" where
  "digits n =
     (if n < 10 then [''0123456789'' ! n]
      else digits (n div 10) @ [''0123456789'' ! (n mod 10)])"

definition Itoa :: "int \<Rightarrow> string" where
  "Itoa i = (if i < 0 then CHR ''-'' # digits (nat (- i)) else digits (nat i))"

text \<open>
  The loop \<open>for i := 0; i < n; i++\<close> of \<open>genUsers\<close>, on the slice \<open>us\<close> that \<open>make\<close> has
  filled with zero values. \<open>i\<close> is never negative and \<open>i + 1\<close> is at most \<open>n\<close>, so the
  conversions to \<open>uint\<close> change nothing and nothing overflows.
\<close>

function genUsers_loop :: "nat \<Rightarrow> nat \<Rightarrow> User_root list \<Rightarrow> User_root list" where
  "genUsers_loop i n us =
     (if i < n
      then genUsers_loop (Suc i) n
             (us[i := \<lparr>User_root.ID = i + 1,
                       User_root.Name = ''User_'' @ Itoa (int i),
                       User_root.Age = 18 + i mod 50,
                       User_root.Email = ''user'' @ Itoa (int i) @ ''@example.com'',
                       User_root.City = ''City'' @ Itoa (int (i mod 10))\<rparr>])
      else us)"
  by pat_completeness auto
termination
  by (relation "measure (\<lambda>(i, n, us). n - i)") auto

text \<open>\<open>make([]User, n)\<close> panics for a negative \<open>n\<close>.\<close>

definition genUsers :: "int \<Rightarrow> error + User_root slice" where
  "genUsers n =
     (if n < 0 then Inl MakesliceLenOutOfRange
      else Inr (Slice (genUsers_loop 0 (nat n) (replicate (nat n) zero_User_root))))"

text \<open>In \<open>genPtrUsers\<close> each \<open>u\<close> escapes through \<open>&u\<close>: one allocation per round.\<close>

function genPtrUsers_loop ::
  "nat \<Rightarrow> nat \<Rightarrow> User_root heap \<Rightarrow> ptr list \<Rightarrow> User_root heap \<times> ptr list" where
  "genPtrUsers_loop i n h us =
     (if i < n
      then (let u = \<lparr>User_root.ID = i + 1,
                     User_root.Name = ''User_'' @ Itoa (int i),
                     User_root.Age = 18 + i mod 50,
                     User_root.Email = ''user'' @ Itoa (int i) @ ''@example.com'',
                     User_root.City = ''City'' @ Itoa (int (i mod 10))\<rparr>;
                (h', a) = alloc h u
            in genPtrUsers_loop (Suc i) n h' (us[i := Some a]))
      else (h, us))"
  by pat_completeness auto
termination
  by (relation "measure (\<lambda>(i, n, h, us). n - i)") auto

definition genPtrUsers :: "User_root heap \<Rightarrow> int \<Rightarrow> error + User_root heap \<times> ptr slice" where
  "genPtrUsers h n =
     (if n < 0 then Inl MakesliceLenOutOfRange
      else (let (h', us) = genPtrUsers_loop 0 (nat n) h (replicate (nat n) None)
            in Inr (h', Slice us)))"

section \<open>Package \<^verbatim>\<open>examples/side_effects_and_nil\<close>\<close>

text \<open>The example program has a \<open>User\<close> of its own, with an \<open>int\<close> identifier and no age.\<close>

record User =
  ID :: int
  Name :: string
  Email :: string
  City :: string

definition zero_User :: User where
  "zero_User = \<lparr>ID = 0, Name = [], Email = [], City = []\<rparr>"

definition no_users :: "User heap" where
  "no_users = \<lparr>mem = (\<lambda>a. zero_User), fresh = 0\<rparr>"

definition encUser :: "User \<Rightarrow> json" where
  "encUser u =
     JObject [(''ID'', JNumber (ID u)), (''Name'', JString (Name u)),
              (''Email'', JString (Email u)), (''City'', JString (City u))]"

text \<open>\<open>json.Marshal(map[string]any{"users": ps})\<close> for \<open>ps\<close> of type \<open>[]*User\<close>.\<close>

definition marshalPtrs :: "User heap \<Rightarrow> ptr slice \<Rightarrow> json" where
  "marshalPtrs h ps = marshalUsersMap (encSlice (encPtr encUser h) ps)"

text \<open>The same for \<open>vs\<close> of type \<open>[]User\<close>.\<close>

definition marshalValues :: "User slice \<Rightarrow> json" where
  "marshalValues vs = marshalUsersMap (encSlice encUser vs)"

text \<open>Sequencing of steps that may panic.\<close>

definition and_then :: "error + 'a \<Rightarrow> ('a \<Rightarrow> error + 'b) \<Rightarrow> error + 'b" where
  "and_then m k = (case m of Inl e \<Rightarrow> Inl e | Inr x \<Rightarrow> k x)"

subsection \<open>Utilities\<close>

function toPtrSlice_loop ::
  "nat \<Rightarrow> User list \<Rightarrow> User heap \<Rightarrow> ptr list \<Rightarrow> User heap \<times> ptr list" where
  "toPtrSlice_loop i vs h out =
     (if i < length vs
      then (let u = vs ! i; (h', a) = alloc h u
            in toPtrSlice_loop (Suc i) vs h' (out[i := Some a]))
      else (h, out))"
  by pat_completeness auto
termination
  by (relation "measure (\<lambda>(i, vs, h, out). length vs - i)") auto

definition toPtrSlice :: "User heap \<Rightarrow> User slice \<Rightarrow> User heap \<times> ptr slice" where
  "toPtrSlice h vs =
     (let (h', out) = toPtrSlice_loop 0 (elems vs) h (replicate (len vs) None)
      in (h', Slice out))"

fun toValueSlice_loop :: "User heap \<Rightarrow> ptr list \<Rightarrow> User list \<Rightarrow> User list" where
  "toValueSlice_loop h [] out = out"
| "toValueSlice_loop h (p # ps) out =
     (case p of
        None \<Rightarrow> toValueSlice_loop h ps out
      | Some a \<Rightarrow> toValueSlice_loop h ps (out @ [mem h a]))"

definition toValueSlice :: "User heap \<Rightarrow> ptr slice \<Rightarrow> User slice" where
  "toValueSlice h ps = Slice (toValueSlice_loop h (elems ps) [])"

fun deepCopyPtrSlice_loop ::
  "User heap \<Rightarrow> ptr list \<Rightarrow> ptr list \<Rightarrow> User heap \<times> ptr list" where
  "deepCopyPtrSlice_loop h [] out = (h, out)"
| "deepCopyPtrSlice_loop h (p # ps) out =
     (case p of
        None \<Rightarrow> deepCopyPtrSlice_loop h ps (out @ [None])
      | Some a \<Rightarrow>
          (let cp = mem h a; (h', c) = alloc h cp
           in deepCopyPtrSlice_loop h' ps (out @ [Some c])))"

definition deepCopyPtrSlice :: "User heap \<Rightarrow> ptr slice \<Rightarrow> User heap \<times> ptr slice" where
  "deepCopyPtrSlice h ps =
     (let (h', out) = deepCopyPtrSlice_loop h (elems ps) [] in (h', Slice out))"

text \<open>
  A predicate \<open>func(*User) bool\<close> may read the heap through its argument, so it takes
  the heap as well; it is taken to be a function: it changes nothing and does not panic.
\<close>

fun filterPtr_loop ::
  "User heap \<Rightarrow> (User heap \<Rightarrow> ptr \<Rightarrow> bool) \<Rightarrow> ptr list \<Rightarrow> ptr list \<Rightarrow> ptr list" where
  "filterPtr_loop h pred [] out = out"
| "filterPtr_loop h pred (p # ps) out =
     (if pred h p then filterPtr_loop h pred ps (out @ [p])
      else filterPtr_loop h pred ps out)"

definition filterPtr ::
  "User heap \<Rightarrow> ptr slice \<Rightarrow> (User heap \<Rightarrow> ptr \<Rightarrow> bool) \<Rightarrow> ptr slice" where
  "filterPtr h ps pred = Slice (filterPtr_loop h pred (elems ps) [])"

text \<open>\<open>p == nil || !pred(p)\<close> does not call \<open>pred\<close> on \<open>nil\<close>; \<open>&cp\<close> allocates.\<close>

fun filterPtrDeepCopy_loop ::
  "User heap \<Rightarrow> (User heap \<Rightarrow> ptr \<Rightarrow> bool) \<Rightarrow> ptr list \<Rightarrow> ptr list \<Rightarrow> User heap \<times> ptr list" where
  "filterPtrDeepCopy_loop h pred [] out = (h, out)"
| "filterPtrDeepCopy_loop h pred (p # ps) out =
     (case p of
        None \<Rightarrow> filterPtrDeepCopy_loop h pred ps out
      | Some a \<Rightarrow>
          if \<not> pred h p then filterPtrDeepCopy_loop h pred ps out
          else (let cp = mem h a; (h', c) = alloc h cp
                in filterPtrDeepCopy_loop h' pred ps (out @ [Some c])))"

definition filterPtrDeepCopy ::
  "User heap \<Rightarrow> ptr slice \<Rightarrow> (User heap \<Rightarrow> ptr \<Rightarrow> bool) \<Rightarrow> User heap \<times> ptr slice" where
  "filterPtrDeepCopy h ps pred =
     (let (h', out) = filterPtrDeepCopy_loop h pred (elems ps) [] in (h', Slice out))"

fun compactNonNil_loop :: "ptr list \<Rightarrow> ptr list \<Rightarrow> ptr list" where
  "compactNonNil_loop [] out = out"
| "compactNonNil_loop (p # ps) out =
     (if p \<noteq> None then compactNonNil_loop ps (out @ [p]) else compactNonNil_loop ps out)"

definition compactNonNil :: "ptr slice \<Rightarrow> ptr slice" where
  "compactNonNil ps = Slice (compactNonNil_loop (elems ps) [])"

text \<open>The buffer \<open>b\<close> of \<open>ptrNames\<close> is the string written so far.\<close>

fun ptrNames_loop :: "User heap \<Rightarrow> nat \<Rightarrow> ptr list \<Rightarrow> string \<Rightarrow> string" where
  "ptrNames_loop h i [] b = b"
| "ptrNames_loop h i (p # ps) b =
     (let b1 = (if i > 0 then b @ '', '' else b);
          b2 = (case p of None \<Rightarrow> b1 @ ''nil'' | Some a \<Rightarrow> b1 @ Name (mem h a))
      in ptrNames_loop h (Suc i) ps b2)"

definition ptrNames :: "User heap \<Rightarrow> ptr slice \<Rightarrow> string" where
  "ptrNames h ps = ptrNames_loop h 0 (elems ps) ''['' @ '']''"

text \<open>
  \<open>withCity\<close> receives its \<open>User\<close> by value: \<open>u.City = city\<close> assigns to the parameter, a
  variable of the callee.
\<close>

definition withCity :: "User \<Rightarrow> string \<Rightarrow> User" where
  "withCity u city = (let u = u\<lparr>City := city\<rparr> in u)"

text \<open>
  The caller's side of \<open>u2 := withCity(u, city)\<close> in \<open>safePatternsDemo\<close>: the two local
  variables before and after the statement.
\<close>

record locals =
  var_u :: User
  var_u2 :: User

definition call_withCity :: "locals \<Rightarrow> string \<Rightarrow> locals" where
  "call_withCity s city = s\<lparr>var_u2 := withCity (var_u s) city\<rparr>"

subsection \<open>Sorting with the comparator that knows nil\<close>

text \<open>
  The comparator of \<open>nilPitfallsDemo\<close>, on the two elements it has read, with its four
  cases in their order. \<open>ui.Name\<close> and \<open>uj.Name\<close> dereference.
\<close>

definition less_nilaware :: "User heap \<Rightarrow> ptr \<Rightarrow> ptr \<Rightarrow> error + bool" where
  "less_nilaware h ui uj =
     (if ui = None \<and> uj = None then Inr False
      else if ui = None then Inr False
      else if uj = None then Inr True
      else and_then (deref h ui) (\<lambda>x. and_then (deref h uj) (\<lambda>y. Inr (Name x < Name y))))"

text \<open>The closure itself: it reads \<open>ptrs[i]\<close> and \<open>ptrs[j]\<close> from the slice being sorted.\<close>

definition Less_nilaware :: "User heap \<Rightarrow> ptr list \<Rightarrow> nat \<Rightarrow> nat \<Rightarrow> error + bool" where
  "Less_nilaware h ptrs i j =
     and_then (index (Slice ptrs) i) (\<lambda>ui.
     and_then (index (Slice ptrs) j) (\<lambda>uj. less_nilaware h ui uj))"

text \<open>
  The comparator that the program shows in a comment only, as what not to write:
  \<open>ptrs[i].Name < ptrs[j].Name\<close>.
\<close>

definition Less_unsafe :: "User heap \<Rightarrow> ptr list \<Rightarrow> nat \<Rightarrow> nat \<Rightarrow> error + bool" where
  "Less_unsafe h ptrs i j =
     and_then (index (Slice ptrs) i) (\<lambda>ui.
     and_then (index (Slice ptrs) j) (\<lambda>uj.
     and_then (deref h ui) (\<lambda>x. and_then (deref h uj) (\<lambda>y. Inr (Name x < Name y)))))"

text \<open>
  \<open>sort.Slice\<close> belongs to Go's standard library. On a range of at most twelve elements
  it runs \<open>insertionSortLessFunc\<close>:
  \<^verbatim>\<open>for i := a + 1; i < b; i++ {
      for j := i; j > a && data.Less(j, j-1); j-- { data.Swap(j, j-1) }
  }\<close>
  with \<open>a = 0\<close> and \<open>b\<close> the length, and that is the sort modelled here, in place on the
  contents of the slice. On longer slices the library uses a quicksort; all that is
  used of a sort below is that its result is a permutation of the slice in which no
  later element is less than an earlier one.
\<close>

definition swap :: "'a list \<Rightarrow> nat \<Rightarrow> nat \<Rightarrow> 'a list" where
  "swap xs i j = xs[i := xs ! j, j := xs ! i]"

fun insertionSort_inner ::
  "('a list \<Rightarrow> nat \<Rightarrow> nat \<Rightarrow> error + bool) \<Rightarrow> 'a list \<Rightarrow> nat \<Rightarrow> error + 'a list" where
  "insertionSort_inner lessf xs 0 = Inr xs"
| "insertionSort_inner lessf xs (Suc j) =
     (case lessf xs (Suc j) j of
        Inl e \<Rightarrow> Inl e
      | Inr b \<Rightarrow> if b then insertionSort_inner lessf (swap xs (Suc j) j) j else Inr xs)"

function insertionSort_outer ::
  "('a list \<Rightarrow> nat \<Rightarrow> nat \<Rightarrow> error + bool) \<Rightarrow> nat \<Rightarrow> nat \<Rightarrow> 'a list \<Rightarrow> error + 'a list" where
  "insertionSort_outer lessf i n xs =
     (if i < n
      then (case insertionSort_inner lessf xs i of
              Inl e \<Rightarrow> Inl e
            | Inr xs' \<Rightarrow> insertionSort_outer lessf (Suc i) n xs')
      else Inr xs)"
  by pat_completeness auto
termination
  by (relation "measure (\<lambda>(lessf, i, n, xs). n - i)") auto

definition sort_Slice ::
  "'a slice \<Rightarrow> ('a list \<Rightarrow> nat \<Rightarrow> nat \<Rightarrow> error + bool) \<Rightarrow> error + 'a slice" where
  "sort_Slice s lessf =
     (case s of
        NilSlice \<Rightarrow> Inr NilSlice
      | Slice xs \<Rightarrow>
          (case insertionSort_outer lessf 1 (length xs) xs of
             Inl e \<Rightarrow> Inl e
           | Inr ys \<Rightarrow> Inr (Slice ys)))"

subsection \<open>The three demonstrations\<close>

text \<open>The predicate of the demonstrations: \<open>u != nil && u.City == "Sendai"\<close>.\<close>

definition inSendai :: "User heap \<Rightarrow> ptr \<Rightarrow> bool" where
  "inSendai h u = (case u of None \<Rightarrow> False | Some a \<Rightarrow> City (mem h a) = ''Sendai'')"

text \<open>
  \<open>sideEffectsDemo\<close> returns what it prints: the two names before the update through
  \<open>onlySendai[0]\<close>, the two names after it, and \<open>ptrs[1].City\<close> after the update through
  \<open>shallow[1]\<close>.
\<close>

definition sideEffectsDemo :: "error + (string \<times> string) \<times> (string \<times> string) \<times> string" where
  "sideEffectsDemo =
     (let src = Slice [\<lparr>ID = 1, Name = ''Alice'', Email = ''a@example.com'', City = ''Sendai''\<rparr>,
                       \<lparr>ID = 2, Name = ''Bob'', Email = ''b@example.com'', City = ''Kanazawa''\<rparr>];
          (h1, ptrs) = toPtrSlice no_users src;
          onlySendai = filterPtr h1 ptrs inSendai
      in and_then (index ptrs 0) (\<lambda>p0.
         and_then (index onlySendai 0) (\<lambda>q0.
         and_then (deref h1 p0) (\<lambda>x.
         and_then (deref h1 q0) (\<lambda>y.
         and_then (assign h1 q0 (\<lambda>u. u\<lparr>Name := ''Alice-Updated''\<rparr>)) (\<lambda>h2.
         and_then (deref h2 p0) (\<lambda>x'.
         and_then (deref h2 q0) (\<lambda>y'.
         let shallow = append_nil ptrs
         in and_then (index shallow 1) (\<lambda>s1.
            and_then (assign h2 s1 (\<lambda>u. u\<lparr>City := ''Tokyo''\<rparr>)) (\<lambda>h3.
            and_then (index ptrs 1) (\<lambda>p1.
            and_then (deref h3 p1) (\<lambda>z.
            Inr ((Name x, Name y), (Name x', Name y'), City z)))))))))))))"

text \<open>
  \<open>nilPitfallsDemo\<close> returns its variables at its end: \<open>ptrs\<close> as sorted, the names
  printed, the document \<open>out\<close> of the sorted slice, \<open>cleaned\<close> and its document \<open>out2\<close>.
\<close>

definition nilPitfallsDemo :: "error + ptr slice \<times> string \<times> json \<times> ptr slice \<times> json" where
  "nilPitfallsDemo =
     (let (h1, a1) = alloc no_users
                       \<lparr>ID = 1, Name = ''Alice'', Email = ''a@example.com'', City = ''Sendai''\<rparr>;
          (h2, a3) = alloc h1
                       \<lparr>ID = 3, Name = ''Carol'', Email = ''c@example.com'', City = ''Nagoya''\<rparr>;
          ptrs = Slice [Some a1, None, Some a3]
      in and_then (sort_Slice ptrs (Less_nilaware h2)) (\<lambda>ptrs.
         let names = ptrNames h2 ptrs;
             out = marshalPtrs h2 ptrs;
             cleaned = compactNonNil ptrs;
             out2 = marshalPtrs h2 cleaned
         in Inr (ptrs, names, out, cleaned, out2)))"

text \<open>
  \<open>safePatternsDemo\<close> returns \<open>src[0].Name\<close> and \<open>copied[0].Name\<close> after the update of
  the copy, the document of \<open>jsonReady\<close>, the old and the new city, and \<open>cache[0].Name\<close>
  after the update of the deep copy.
\<close>

definition safePatternsDemo ::
  "error + (string \<times> string) \<times> json \<times> (string \<times> string) \<times> string" where
  "safePatternsDemo =
     (let (h1, a1) = alloc no_users (zero_User\<lparr>ID := 1, Name := ''Alice'', City := ''Sendai''\<rparr>);
          (h2, a2) = alloc h1 (zero_User\<lparr>ID := 2, Name := ''Bob'', City := ''Kanazawa''\<rparr>);
          (h3, a3) = alloc h2 (zero_User\<lparr>ID := 3, Name := ''Carol'', City := ''Sendai''\<rparr>);
          src = Slice [Some a1, Some a2, Some a3];
          (h4, copied) = filterPtrDeepCopy h3 src inSendai
      in and_then (index copied 0) (\<lambda>c0.
         and_then (assign h4 c0 (\<lambda>u. u\<lparr>Name := ''Alice-DeepCopied''\<rparr>)) (\<lambda>h5.
         and_then (index src 0) (\<lambda>s0.
         and_then (deref h5 s0) (\<lambda>x.
         and_then (deref h5 c0) (\<lambda>y.
         let jsonReady = toValueSlice h5 (compactNonNil src);
             j = marshalValues jsonReady;
             l1 = \<lparr>var_u = zero_User\<lparr>ID := 10, Name := ''Dave'', City := ''Osaka''\<rparr>,
                   var_u2 = zero_User\<rparr>;
             l2 = call_withCity l1 ''Tokyo'';
             (h6, b1) = alloc h5 (zero_User\<lparr>ID := 100, Name := ''X''\<rparr>);
             (h7, b2) = alloc h6 (zero_User\<lparr>ID := 101, Name := ''Y''\<rparr>);
             cache = Slice [Some b1, Some b2];
             (h8, safeExternal) = deepCopyPtrSlice h7 cache
         in and_then (index safeExternal 0) (\<lambda>e0.
            and_then (assign h8 e0 (\<lambda>u. u\<lparr>Name := ''X-Changed-Outside''\<rparr>)) (\<lambda>h9.
            and_then (index cache 0) (\<lambda>k0.
            and_then (deref h9 k0) (\<lambda>z.
            Inr ((Name x, Name y), j, (City (var_u l2), City (var_u2 l2)), Name z)))))))))))"

section \<open>Notions used in the statements\<close>

text \<open>
  The record that the two generators build for position \<open>i\<close>: identifier \<open>i + 1\<close>, age
  \<open>18 + i mod 50\<close>, and the name, the address and the city numbered by the position.
\<close>

definition user_at :: "nat \<Rightarrow> User_root" where
  "user_at i = \<lparr>User_root.ID = i + 1,
                User_root.Name = ''User_'' @ Itoa (int i),
                User_root.Age = 18 + i mod 50,
                User_root.Email = ''user'' @ Itoa (int i) @ ''@example.com'',
                User_root.City = ''City'' @ Itoa (int (i mod 10))\<rparr>"

text \<open>A sequence of field assignments \<open>p.F = v\<close>, each through its own pointer.\<close>

fun assigns :: "'u heap \<Rightarrow> (ptr \<times> ('u \<Rightarrow> 'u)) list \<Rightarrow> error + 'u heap" where
  "assigns h [] = Inr h"
| "assigns h ((p, f) # ms) = and_then (assign h p f) (\<lambda>h'. assigns h' ms)"




text \<open>
  The heap and the slice \<open>ptrs\<close> of \<open>sideEffectsDemo\<close> after \<open>toPtrSlice\<close>, the heap of
  \<open>nilPitfallsDemo\<close>, and the heap and the slice \<open>src\<close> of \<open>safePatternsDemo\<close>.
\<close>

definition demo_heap :: "User heap" where
  "demo_heap =
     \<lparr>mem = (\<lambda>a. zero_User)
        (0 := \<lparr>ID = 1, Name = ''Alice'', Email = ''a@example.com'', City = ''Sendai''\<rparr>,
         1 := \<lparr>ID = 2, Name = ''Bob'', Email = ''b@example.com'', City = ''Kanazawa''\<rparr>),
      fresh = 2\<rparr>"

definition demo_ptrs :: "ptr slice" where
  "demo_ptrs = Slice [Some 0, Some 1]"

definition pitfall_heap :: "User heap" where
  "pitfall_heap =
     \<lparr>mem = (\<lambda>a. zero_User)
        (0 := \<lparr>ID = 1, Name = ''Alice'', Email = ''a@example.com'', City = ''Sendai''\<rparr>,
         1 := \<lparr>ID = 3, Name = ''Carol'', Email = ''c@example.com'', City = ''Nagoya''\<rparr>),
      fresh = 2\<rparr>"

definition safe_heap :: "User heap" where
  "safe_heap =
     \<lparr>mem = (\<lambda>a. zero_User)
        (0 := zero_User\<lparr>ID := 1, Name := ''Alice'', City := ''Sendai''\<rparr>,
         1 := zero_User\<lparr>ID := 2, Name := ''Bob'', City := ''Kanazawa''\<rparr>,
         2 := zero_User\<lparr>ID := 3, Name := ''Carol'', City := ''Sendai''\<rparr>),
      fresh = 3\<rparr>"

definition safe_src :: "ptr slice" where
  "safe_src = Slice [Some 0, Some 1, Some 2]"

declare genUsers_loop.simps [simp del]
declare genPtrUsers_loop.simps [simp del]
declare digits.simps [simp del]
declare insertionSort_outer.simps [simp del]

section \<open>Properties of the example package\<close>

subsection \<open>What the loops compute\<close>

lemma toValueSlice_loop_eq:
  "toValueSlice_loop h ps out = out @ map (\<lambda>p. mem h (the p)) (filter (\<lambda>p. p \<noteq> None) ps)"
  by (induction ps arbitrary: out) (auto split: option.splits)

lemma compactNonNil_loop_eq:
  "compactNonNil_loop ps out = out @ filter (\<lambda>p. p \<noteq> None) ps"
  by (induction ps arbitrary: out) auto

lemma filterPtr_loop_eq:
  "filterPtr_loop h pred ps out = out @ filter (pred h) ps"
  by (induction ps arbitrary: out) auto

subsection \<open>Conversion to a value slice\<close>

text \<open>
  Claim C10. \<open>toValueSlice\<close> skips the \<open>nil\<close> elements by itself: its result holds the
  users behind the non-nil elements of \<open>ps\<close>, in their order, so that compacting \<open>ps\<close>
  first changes nothing: \<open>toValueSlice(compactNonNil(ps))\<close> is \<open>toValueSlice(ps)\<close>.
\<close>

theorem toValueSlice_skips_nil:
  "elems (toValueSlice h ps) = map (\<lambda>p. mem h (the p)) (filter (\<lambda>p. p \<noteq> None) (elems ps))
   \<and> toValueSlice h (compactNonNil ps) = toValueSlice h ps"
  by (simp add: toValueSlice_def compactNonNil_def toValueSlice_loop_eq compactNonNil_loop_eq)

subsection \<open>The update that returns a new value\<close>

text \<open>
  Claim C9. \<open>withCity(u, city)\<close> returns a record whose \<open>City\<close> is \<open>city\<close> and whose other
  fields, \<open>ID\<close>, \<open>Name\<close> and \<open>Email\<close> (this \<open>User\<close> has no \<open>Age\<close>), are those of \<open>u\<close>; the
  caller's variable \<open>u\<close> is the same after \<open>u2 := withCity(u, city)\<close> as before, and \<open>u2\<close>
  is the record returned.
\<close>

theorem withCity_new_value:
  "City (withCity u city) = city
   \<and> ID (withCity u city) = ID u
   \<and> Name (withCity u city) = Name u
   \<and> Email (withCity u city) = Email u
   \<and> var_u (call_withCity s city) = var_u s
   \<and> var_u2 (call_withCity s city) = withCity (var_u s) city"
  by (simp add: withCity_def call_withCity_def)

subsection \<open>Null in the documents\<close>

lemma nulls_encUser: "nulls (encUser u) = 0"
  by (simp add: encUser_def)

lemma nulls_encPtr: "nulls (encPtr encUser h p) = (if p = None then 1 else 0)"
  by (simp add: encPtr_def nulls_encUser split: option.splits)

lemma encPtr_null_iff: "(encPtr encUser h p = JNull) = (p = None)"
  by (simp add: encPtr_def encUser_def split: option.splits)

lemma sum_nulls_encPtr:
  "sum_list (map (\<lambda>p. nulls (encPtr encUser h p)) xs) = count_list xs None"
  by (induction xs) (auto simp: nulls_encPtr)

lemma count_list_filter_nonnil: "count_list (filter (\<lambda>p. p \<noteq> None) xs) None = 0"
  by (induction xs) auto

text \<open>
  Claim C3, as stated, for every sequence of element references: the document of the
  compacted sequence has no \<open>null\<close>, and the document of the sequence itself has one
  \<open>null\<close> per absent slot. The second half fails for the \<open>nil\<close> slice, which is a
  sequence with no slot at all and whose document still has one \<open>null\<close>, in the place
  of the array: \<open>{"users":null}\<close>.
\<close>

theorem marshal_nil_slice_counterexample:
  "nulls (marshalPtrs no_users NilSlice) = 1
   \<and> count_list (elems (NilSlice :: ptr slice)) None = 0"
  by (simp add: marshalPtrs_def marshalUsersMap_def encSlice_def)

text \<open>
  Claim C3, amended. For every sequence of element references \<open>ps\<close>, \<open>nil\<close> or not, the
  document of \<open>compactNonNil(ps)\<close> has no \<open>null\<close>. For every sequence that is not the
  \<open>nil\<close> slice, with elements \<open>xs\<close>, the document has the key \<open>users\<close> with an array of
  as many elements as \<open>xs\<close>, the element at position \<open>i\<close> is \<open>null\<close> exactly when slot
  \<open>i\<close> is absent, and these are all the \<open>null\<close>s of the document.
\<close>

theorem marshal_null_per_absent_slot:
  "nulls (marshalPtrs h (compactNonNil ps)) = 0
   \<and> marshalPtrs h (Slice xs) = JObject [(''users'', JArray (map (encPtr encUser h) xs))]
   \<and> length (map (encPtr encUser h) xs) = length xs
   \<and> (\<forall>i<length xs. (map (encPtr encUser h) xs ! i = JNull) = (xs ! i = None))
   \<and> nulls (marshalPtrs h (Slice xs)) = count_list xs None"
  by (simp add: marshalPtrs_def marshalUsersMap_def encSlice_def compactNonNil_def
      compactNonNil_loop_eq comp_def sum_nulls_encPtr count_list_filter_nonnil encPtr_null_iff)

theorem marshal_null_per_absent_slot_witness:
  "nulls (marshalPtrs no_users (compactNonNil (Slice [Some 0, None, Some 1]))) = 0
   \<and> (1::nat) < length [Some (0::nat), None, Some 1]
   \<and> map (encPtr encUser no_users) [Some 0, None, Some 1] ! 1 = JNull
   \<and> nulls (marshalPtrs no_users (Slice [Some 0, None, Some 1])) = 1"
  using marshal_null_per_absent_slot
          [of no_users "Slice [Some 0, None, Some 1]" "[Some 0, None, Some 1]"]
  by (simp add: encPtr_def encUser_def)

subsection \<open>The demonstration with an absent slot\<close>

text \<open>The heap named above is the one that the literal of \<open>nilPitfallsDemo\<close> builds.\<close>

lemma pitfall_heap_alloc:
  "(let (h1, a1) = alloc no_users
                     \<lparr>ID = 1, Name = ''Alice'', Email = ''a@example.com'', City = ''Sendai''\<rparr>;
        (h2, a3) = alloc h1
                     \<lparr>ID = 3, Name = ''Carol'', Email = ''c@example.com'', City = ''Nagoya''\<rparr>
    in (h2, Slice [Some a1, None, Some a3]))
   = (pitfall_heap, Slice [Some 0, None, Some 1])"
  by (simp add: alloc_def no_users_def pitfall_heap_def)

text \<open>
  Claim C7. On the three references Alice, absent, Carol of \<open>nilPitfallsDemo\<close> the sort
  with the absent-last rule leaves the order Alice, Carol, absent (the names printed
  are \<open>[Alice, Carol, nil]\<close>), and compacting before serialization leaves exactly two
  records: \<open>cleaned\<close> has length 2 and its document an array of the two users.
\<close>

theorem nilPitfallsDemo_result:
  "nilPitfallsDemo =
     Inr (Slice [Some 0, Some 1, None],
          ''[Alice, Carol, nil]'',
          JObject [(''users'', JArray
            [JObject [(''ID'', JNumber 1), (''Name'', JString ''Alice''),
                      (''Email'', JString ''a@example.com''), (''City'', JString ''Sendai'')],
             JObject [(''ID'', JNumber 3), (''Name'', JString ''Carol''),
                      (''Email'', JString ''c@example.com''), (''City'', JString ''Nagoya'')],
             JNull])],
          Slice [Some 0, Some 1],
          JObject [(''users'', JArray
            [JObject [(''ID'', JNumber 1), (''Name'', JString ''Alice''),
                      (''Email'', JString ''a@example.com''), (''City'', JString ''Sendai'')],
             JObject [(''ID'', JNumber 3), (''Name'', JString ''Carol''),
                      (''Email'', JString ''c@example.com''), (''City'', JString ''Nagoya'')]])])
   \<and> len (compactNonNil (Slice [Some 0, Some 1, None])) = 2"
  by code_simp

subsection \<open>Sorting a slice with absent slots\<close>
















text \<open>The comparator of the comment does panic, on the slice of the demonstration.\<close>

lemma unsafe_sort_panics:
  "sort_Slice (Slice [Some 0, None, Some 1]) (Less_unsafe no_users) = Inl NilDereference"
  by code_simp



subsection \<open>Filtering shares the referents\<close>

lemma assign_Inr:
  "assign h q f = Inr h' \<Longrightarrow>
     \<exists>a. q = Some a \<and> h' = h\<lparr>mem := (mem h)(a := f (mem h a))\<rparr>"
  by (auto simp: assign_def split: option.splits)

lemma index_Inr: "index s i = Inr x \<longleftrightarrow> i < length (elems s) \<and> elems s ! i = x"
  by (auto simp: index_def len_def)

lemma elems_append_nil: "elems (append_nil s) = elems s"
  by (simp add: append_nil_def)

text \<open>
  Claim C4. For every sequence of element references \<open>ps\<close> and every predicate, the
  result of \<open>filterPtr\<close> holds the very pointers of \<open>ps\<close> that satisfy the predicate.
  So when a field is assigned through element \<open>j\<close> of the result (the assignment is
  \<open>f\<close>, the heap afterwards \<open>h'\<close>), there is a slot \<open>i\<close> of the source with the same
  pointer, it showed the same record as the result element before (so the same
  identifier), and it shows the changed record afterwards. The shallow copy
  \<open>append([]*User(nil), ps...)\<close> has the elements of \<open>ps\<close>, and an assignment through
  its element \<open>j\<close> is seen through \<open>ps[j]\<close> in the same way.
\<close>

theorem filterPtr_shares_referents:
  assumes "assign h q f = Inr h'"
  shows "elems (filterPtr h ps pred) = filter (pred h) (elems ps)
     \<and> (index (filterPtr h ps pred) j = Inr q \<longrightarrow>
          (\<exists>i x. index ps i = Inr q
               \<and> and_then (index ps i) (deref h) = Inr x
               \<and> and_then (index (filterPtr h ps pred) j) (deref h) = Inr x
               \<and> and_then (index (filterPtr h ps pred) j) (deref h') = Inr (f x)
               \<and> and_then (index ps i) (deref h') = Inr (f x)))
     \<and> elems (append_nil ps) = elems ps
     \<and> (index (append_nil ps) j = Inr q \<longrightarrow>
          (\<exists>x. index ps j = Inr q
             \<and> and_then (index ps j) (deref h) = Inr x
             \<and> and_then (index (append_nil ps) j) (deref h') = Inr (f x)
             \<and> and_then (index ps j) (deref h') = Inr (f x)))"
proof -
  from assms obtain a where q: "q = Some a"
    and h': "h' = h\<lparr>mem := (mem h)(a := f (mem h a))\<rparr>"
    by (blast dest: assign_Inr)
  have e: "elems (filterPtr h ps pred) = filter (pred h) (elems ps)"
    by (simp add: filterPtr_def filterPtr_loop_eq)
  have d: "deref h q = Inr (mem h a)" "deref h' q = Inr (f (mem h a))"
    by (simp_all add: q h' deref_def)
  have 1: "\<exists>i x. index ps i = Inr q
               \<and> and_then (index ps i) (deref h) = Inr x
               \<and> and_then (index (filterPtr h ps pred) j) (deref h) = Inr x
               \<and> and_then (index (filterPtr h ps pred) j) (deref h') = Inr (f x)
               \<and> and_then (index ps i) (deref h') = Inr (f x)"
    if j: "index (filterPtr h ps pred) j = Inr q"
  proof -
    from j e have "q \<in> set (filter (pred h) (elems ps))"
      by (metis index_Inr nth_mem)
    then have "q \<in> set (elems ps)" by simp
    then obtain i where "i < length (elems ps)" "elems ps ! i = q"
      by (auto simp: in_set_conv_nth)
    then have "index ps i = Inr q" by (simp add: index_Inr)
    with j d show ?thesis by (auto simp: and_then_def)
  qed
  have 2: "\<exists>x. index ps j = Inr q
             \<and> and_then (index ps j) (deref h) = Inr x
             \<and> and_then (index (append_nil ps) j) (deref h') = Inr (f x)
             \<and> and_then (index ps j) (deref h') = Inr (f x)"
    if j: "index (append_nil ps) j = Inr q"
  proof -
    from j have "index ps j = Inr q"
      by (simp add: index_Inr elems_append_nil)
    with j d show ?thesis by (auto simp: and_then_def)
  qed
  show ?thesis using e 1 2 elems_append_nil [of ps] by blast
qed

text \<open>
  The instance of \<open>sideEffectsDemo\<close>: its heap and slice are the ones named above, and
  the name of Alice is changed through \<open>onlySendai[0]\<close>.
\<close>

lemma demo_toPtrSlice:
  "toPtrSlice no_users
     (Slice [\<lparr>ID = 1, Name = ''Alice'', Email = ''a@example.com'', City = ''Sendai''\<rparr>,
             \<lparr>ID = 2, Name = ''Bob'', Email = ''b@example.com'', City = ''Kanazawa''\<rparr>])
   = (demo_heap, demo_ptrs)"
  by (simp add: toPtrSlice_def no_users_def demo_heap_def demo_ptrs_def len_def alloc_def)

theorem filterPtr_shares_referents_witness:
  "assign demo_heap (Some 0) (\<lambda>u. u\<lparr>Name := ''Alice-Updated''\<rparr>)
     = Inr (demo_heap\<lparr>mem := (mem demo_heap)(0 := (mem demo_heap 0)\<lparr>Name := ''Alice-Updated''\<rparr>)\<rparr>)
   \<and> index (filterPtr demo_heap demo_ptrs inSendai) 0 = Inr (Some 0)
   \<and> index (append_nil demo_ptrs) 0 = Inr (Some 0)
   \<and> (\<exists>i x. index demo_ptrs i = Inr (Some 0)
          \<and> and_then (index demo_ptrs i) (deref demo_heap) = Inr x
          \<and> and_then (index demo_ptrs i)
               (deref (demo_heap\<lparr>mem := (mem demo_heap)(0 := (mem demo_heap 0)\<lparr>Name := ''Alice-Updated''\<rparr>)\<rparr>))
             = Inr (x\<lparr>Name := ''Alice-Updated''\<rparr>))"
proof -
  let ?f = "\<lambda>u::User. u\<lparr>Name := ''Alice-Updated''\<rparr>"
  let ?h' = "demo_heap\<lparr>mem := (mem demo_heap)(0 := (mem demo_heap 0)\<lparr>Name := ''Alice-Updated''\<rparr>)\<rparr>"
  have a: "assign demo_heap (Some 0) ?f = Inr ?h'"
    by (simp add: assign_def)
  have i: "index (filterPtr demo_heap demo_ptrs inSendai) 0 = Inr (Some 0)"
    by (simp add: filterPtr_def index_def len_def inSendai_def demo_heap_def demo_ptrs_def)
  have s: "index (append_nil demo_ptrs) 0 = Inr (Some 0)"
    by (simp add: append_nil_def index_def len_def demo_ptrs_def)
  from filterPtr_shares_referents [OF a, of demo_ptrs inSendai 0] i
  have "\<exists>i x. index demo_ptrs i = Inr (Some 0)
          \<and> and_then (index demo_ptrs i) (deref demo_heap) = Inr x
          \<and> and_then (index demo_ptrs i) (deref ?h') = Inr (?f x)"
    by blast
  with a i s show ?thesis by blast
qed

lemma sideEffectsDemo_result:
  "sideEffectsDemo =
     Inr ((''Alice'', ''Alice''), (''Alice-Updated'', ''Alice-Updated''), ''Tokyo'')"
  by code_simp

subsection \<open>Filtering with a deep copy leaves the source alone\<close>

lemma allocated_Cons:
  "allocated h (p # ps) = ((case p of None \<Rightarrow> True | Some a \<Rightarrow> a < fresh h) \<and> allocated h ps)"
  by (simp add: allocated_def)

lemma allocated_mono:
  "allocated h ps \<Longrightarrow> fresh h \<le> fresh h' \<Longrightarrow> allocated h' ps"
  by (fastforce simp: allocated_def list_all_iff split: option.splits)

lemma allocated_mem: "allocated h ps \<Longrightarrow> Some a \<in> set ps \<Longrightarrow> a < fresh h"
  by (fastforce simp: allocated_def list_all_iff split: option.splits)

lemma filterPtrDeepCopy_loop_frame:
  "filterPtrDeepCopy_loop h pred ps out = (h', out') \<Longrightarrow> allocated h ps \<Longrightarrow>
     fresh h \<le> fresh h'
     \<and> (\<forall>a<fresh h. mem h' a = mem h a)
     \<and> (\<exists>new. out' = out @ new
            \<and> (\<forall>q\<in>set new. \<exists>c. q = Some c \<and> fresh h \<le> c \<and> c < fresh h'
                  \<and> (\<exists>a. Some a \<in> set ps \<and> mem h' c = mem h a)))"
proof (induction ps arbitrary: h out)
  case Nil
  then show ?case by simp
next
  case (Cons p ps)
  show ?case
  proof (cases p)
    case None
    with Cons.prems have "filterPtrDeepCopy_loop h pred ps out = (h', out')" "allocated h ps"
      by (simp_all add: allocated_Cons)
    from Cons.IH [OF this]
    obtain new where "fresh h \<le> fresh h'" "\<forall>a<fresh h. mem h' a = mem h a" "out' = out @ new"
      and new: "\<forall>q\<in>set new. \<exists>c. q = Some c \<and> fresh h \<le> c \<and> c < fresh h'
                  \<and> (\<exists>a. Some a \<in> set ps \<and> mem h' c = mem h a)"
      by auto
    moreover from new
    have "\<forall>q\<in>set new. \<exists>c. q = Some c \<and> fresh h \<le> c \<and> c < fresh h'
                  \<and> (\<exists>a. Some a \<in> set (p # ps) \<and> mem h' c = mem h a)"
      by (metis list.set_intros(2))
    ultimately show ?thesis by blast
  next
    case (Some a)
    with Cons.prems have a: "a < fresh h" and al: "allocated h ps"
      by (simp_all add: allocated_Cons)
    show ?thesis
    proof (cases "pred h p")
      case False
      with Some Cons.prems have "filterPtrDeepCopy_loop h pred ps out = (h', out')"
        by simp
      from Cons.IH [OF this al]
      obtain new where "fresh h \<le> fresh h'" "\<forall>a<fresh h. mem h' a = mem h a" "out' = out @ new"
        and new: "\<forall>q\<in>set new. \<exists>c. q = Some c \<and> fresh h \<le> c \<and> c < fresh h'
                  \<and> (\<exists>a. Some a \<in> set ps \<and> mem h' c = mem h a)"
        by auto
      moreover from new
      have "\<forall>q\<in>set new. \<exists>c. q = Some c \<and> fresh h \<le> c \<and> c < fresh h'
                  \<and> (\<exists>a. Some a \<in> set (p # ps) \<and> mem h' c = mem h a)"
        by (metis list.set_intros(2))
      ultimately show ?thesis by blast
    next
      case True
      let ?h1 = "h\<lparr>mem := (mem h)(fresh h := mem h a), fresh := Suc (fresh h)\<rparr>"
      from True Some Cons.prems
      have run: "filterPtrDeepCopy_loop ?h1 pred ps (out @ [Some (fresh h)]) = (h', out')"
        by (simp add: alloc_def)
      have al1: "allocated ?h1 ps"
        using al by (rule allocated_mono) simp
      from Cons.IH [OF run al1]
      obtain new where le: "Suc (fresh h) \<le> fresh h'"
        and fr: "\<forall>b<Suc (fresh h). mem h' b = mem ?h1 b"
        and out': "out' = (out @ [Some (fresh h)]) @ new"
        and new: "\<forall>q\<in>set new. \<exists>c. q = Some c \<and> Suc (fresh h) \<le> c \<and> c < fresh h'
                  \<and> (\<exists>b. Some b \<in> set ps \<and> mem h' c = mem ?h1 b)"
        by auto
      have 1: "fresh h \<le> fresh h'" using le by simp
      have 2: "\<forall>b<fresh h. mem h' b = mem h b" using fr by simp
      have 3: "out' = out @ (Some (fresh h) # new)" using out' by simp
      have 4: "\<exists>c. q = Some c \<and> fresh h \<le> c \<and> c < fresh h'
                  \<and> (\<exists>b. Some b \<in> set (p # ps) \<and> mem h' c = mem h b)"
        if q: "q \<in> set (Some (fresh h) # new)" for q
      proof (cases "q = Some (fresh h)")
        case True
        have "mem h' (fresh h) = mem h a" using fr by simp
        with True le Some show ?thesis by auto
      next
        case False
        with q have "q \<in> set new" by simp
        with new obtain c b where c: "q = Some c" "Suc (fresh h) \<le> c" "c < fresh h'"
          and b: "Some b \<in> set ps" "mem h' c = mem ?h1 b"
          by blast
        from al b(1) have "b < fresh h" by (rule allocated_mem)
        with b(2) have "mem h' c = mem h b" by simp
        with c b(1) show ?thesis by auto
      qed
      from 1 2 3 4 show ?thesis by blast
    qed
  qed
qed

lemma assigns_frame:
  "list_all (\<lambda>m. case fst m of None \<Rightarrow> False | Some c \<Rightarrow> k \<le> c) ms \<Longrightarrow>
     \<exists>g'. assigns g ms = Inr g' \<and> (\<forall>a<k. mem g' a = mem g a)"
proof (induction ms arbitrary: g)
  case Nil
  then show ?case by simp
next
  case (Cons m ms)
  obtain p f where m: "m = (p, f)" by (cases m)
  with Cons.prems obtain c where p: "p = Some c" and c: "k \<le> c"
    and rest: "list_all (\<lambda>m. case fst m of None \<Rightarrow> False | Some c \<Rightarrow> k \<le> c) ms"
    by (auto split: option.splits)
  let ?g1 = "g\<lparr>mem := (mem g)(c := f (mem g c))\<rparr>"
  from Cons.IH [OF rest, of ?g1] obtain g' where "assigns ?g1 ms = Inr g'"
    and "\<forall>a<k. mem g' a = mem ?g1 a"
    by blast
  with c show ?case
    by (auto simp: m p assign_def and_then_def)
qed

text \<open>
  Claim C5. For every sequence of element references \<open>ps\<close> (whose pointers have been
  allocated) and every predicate, after \<open>filterPtrDeepCopy\<close> any sequence \<open>ms\<close> of field
  assignments through elements of the result succeeds and leaves every element of the
  source as it was before the call: what \<open>ps\<close> shows in the final heap \<open>h''\<close> is what it
  showed in \<open>h\<close>. The call itself changes nothing of the source either, and every
  element of the result is a pointer, not \<open>nil\<close>, to a copy of a record of the source.
\<close>

theorem filterPtrDeepCopy_keeps_source:
  assumes "allocated h (elems ps)"
    and "filterPtrDeepCopy h ps pred = (h', copied)"
    and "list_all (\<lambda>m. fst m \<in> set (elems copied)) ms"
  shows "\<exists>h''. assigns h' ms = Inr h''
           \<and> map (deref h'') (elems ps) = map (deref h) (elems ps)
           \<and> map (deref h') (elems ps) = map (deref h) (elems ps)
           \<and> list_all (\<lambda>q. q \<noteq> None \<and> deref h' q \<in> set (map (deref h) (elems ps))) (elems copied)"
proof -
  from assms(2) obtain out where run: "filterPtrDeepCopy_loop h pred (elems ps) [] = (h', out)"
    and copied: "copied = Slice out"
    by (auto simp: filterPtrDeepCopy_def split: prod.splits)
  from filterPtrDeepCopy_loop_frame [OF run assms(1)]
  have fr: "\<forall>a<fresh h. mem h' a = mem h a"
    and new: "\<forall>q\<in>set out. \<exists>c. q = Some c \<and> fresh h \<le> c \<and> c < fresh h'
                  \<and> (\<exists>a. Some a \<in> set (elems ps) \<and> mem h' c = mem h a)"
    by auto
  from assms(3) copied new
  have "list_all (\<lambda>m. case fst m of None \<Rightarrow> False | Some c \<Rightarrow> fresh h \<le> c) ms"
    by (fastforce simp: list_all_iff)
  from assigns_frame [OF this, of h'] obtain h'' where h'': "assigns h' ms = Inr h''"
    and fr2: "\<forall>a<fresh h. mem h'' a = mem h' a"
    by blast
  have same: "deref g p = deref h p"
    if "p \<in> set (elems ps)" and "\<forall>a<fresh h. mem g a = mem h a" for g :: "User heap" and p
  proof (cases p)
    case None
    then show ?thesis by (simp add: deref_def)
  next
    case (Some a)
    with that(1) assms(1) have "a < fresh h" by (auto intro: allocated_mem)
    with that(2) Some show ?thesis by (simp add: deref_def)
  qed
  have 1: "map (deref h'') (elems ps) = map (deref h) (elems ps)"
    using fr fr2 by (intro map_cong refl same) auto
  have 2: "map (deref h') (elems ps) = map (deref h) (elems ps)"
    using fr by (intro map_cong refl same) auto
  have 3: "list_all (\<lambda>q. q \<noteq> None \<and> deref h' q \<in> set (map (deref h) (elems ps))) (elems copied)"
    unfolding list_all_iff copied
  proof
    fix q assume "q \<in> set (elems (Slice out))"
    with new obtain c a where q: "q = Some c" and a: "Some a \<in> set (elems ps)" "mem h' c = mem h a"
      by auto
    from a(1) have "deref h (Some a) \<in> set (map (deref h) (elems ps))"
      by (auto intro!: image_eqI [where x = "Some a"])
    with q a(2) show "q \<noteq> None \<and> deref h' q \<in> set (map (deref h) (elems ps))"
      by (simp add: deref_def)
  qed
  from h'' 1 2 3 show ?thesis by blast
qed

text \<open>The heap and the slice named above are the ones that \<open>safePatternsDemo\<close> builds.\<close>

lemma safe_heap_alloc:
  "(let (h1, a1) = alloc no_users (zero_User\<lparr>ID := 1, Name := ''Alice'', City := ''Sendai''\<rparr>);
        (h2, a2) = alloc h1 (zero_User\<lparr>ID := 2, Name := ''Bob'', City := ''Kanazawa''\<rparr>);
        (h3, a3) = alloc h2 (zero_User\<lparr>ID := 3, Name := ''Carol'', City := ''Sendai''\<rparr>)
    in (h3, Slice [Some a1, Some a2, Some a3]))
   = (safe_heap, safe_src)"
  by (simp add: alloc_def no_users_def safe_heap_def safe_src_def numeral_2_eq_2)

text \<open>
  The instance of \<open>safePatternsDemo\<close>: the copies of Alice and Carol are at the two new
  addresses, and the name is changed through \<open>copied[0]\<close>.
\<close>

theorem filterPtrDeepCopy_keeps_source_witness:
  "allocated safe_heap (elems safe_src)
   \<and> filterPtrDeepCopy safe_heap safe_src inSendai
       = (fst (filterPtrDeepCopy safe_heap safe_src inSendai), Slice [Some (3::nat), Some 4])
   \<and> list_all (\<lambda>m. fst m \<in> set (elems (Slice [Some (3::nat), Some 4])))
        [(Some (3::nat), \<lambda>u::User. u\<lparr>Name := ''Alice-DeepCopied''\<rparr>)]
   \<and> (\<exists>h''. assigns (fst (filterPtrDeepCopy safe_heap safe_src inSendai))
                 [(Some (3::nat), \<lambda>u::User. u\<lparr>Name := ''Alice-DeepCopied''\<rparr>)] = Inr h''
          \<and> map (deref h'') (elems safe_src) = map (deref safe_heap) (elems safe_src))"
proof -
  let ?h' = "fst (filterPtrDeepCopy safe_heap safe_src inSendai)"
  let ?ms = "[(Some (3::nat), \<lambda>u::User. u\<lparr>Name := ''Alice-DeepCopied''\<rparr>)]"
  have a: "allocated safe_heap (elems safe_src)"
    by (simp add: allocated_def safe_heap_def safe_src_def)
  have r: "filterPtrDeepCopy safe_heap safe_src inSendai = (?h', Slice [Some (3::nat), Some 4])"
    by (simp add: filterPtrDeepCopy_def safe_heap_def safe_src_def inSendai_def alloc_def
        zero_User_def)
  have m: "list_all (\<lambda>m. fst m \<in> set (elems (Slice [Some (3::nat), Some 4]))) ?ms"
    by simp
  from filterPtrDeepCopy_keeps_source [OF a r m]
  have "\<exists>h''. assigns ?h' ?ms = Inr h''
          \<and> map (deref h'') (elems safe_src) = map (deref safe_heap) (elems safe_src)"
    by blast
  with a r m show ?thesis by blast
qed

lemma safePatternsDemo_names:
  "map_sum id (\<lambda>r. (fst r, fst (snd (snd r)), snd (snd (snd r)))) safePatternsDemo
     = Inr ((''Alice'', ''Alice-DeepCopied''), (''Osaka'', ''Tokyo''), ''X'')"
  by code_simp

section \<open>Properties of package main\<close>

subsection \<open>The three shapes and omitempty\<close>

text \<open>
  Claim C1, as stated: the rule "omit the field \<open>users\<close> when the collection is absent or
  has no element" holds for exactly one of the three shapes, and for the other two the
  documents of the absent and of the empty collection differ. It does not: both the
  value slice \<open>HogeA\<close> and the slice of pointers \<open>PiyoC\<close> give the same document for the
  \<open>nil\<close> slice and for the empty slice.
\<close>

theorem omitempty_two_shapes_counterexample:
  "marshal_HogeA \<lparr>HogeA.Users = NilSlice\<rparr> = marshal_HogeA \<lparr>HogeA.Users = Slice []\<rparr>
   \<and> marshal_PiyoC no_users_root \<lparr>PiyoC.Users = NilSlice\<rparr>
       = marshal_PiyoC no_users_root \<lparr>PiyoC.Users = Slice []\<rparr>"
  by (simp add: marshal_HogeA_def marshal_PiyoC_def omitempty_def isEmptyValue_slice_def len_def)

text \<open>
  Claim C1, amended. The rule holds for exactly two of the three shapes: the document
  of a \<open>HogeA\<close> and of a \<open>PiyoC\<close> has no member exactly when the slice has length zero,
  \<open>nil\<close> or empty alike. It does not hold for \<open>FugaB\<close>, the pointer to a slice, whose
  document has no member exactly when the pointer is \<open>nil\<close>: there the absent
  collection gives \<open>{}\<close> and the empty one \<open>{"users":[]}\<close>.
\<close>

theorem omitempty_by_shape:
  "(marshal_HogeA a = JObject []) = (len (HogeA.Users a) = 0)
   \<and> (marshal_PiyoC h c = JObject []) = (len (PiyoC.Users c) = 0)
   \<and> (marshal_FugaB b = JObject []) = (FugaB.Users b = None)
   \<and> marshal_FugaB \<lparr>FugaB.Users = None\<rparr> = JObject []
   \<and> marshal_FugaB \<lparr>FugaB.Users = Some (Slice [])\<rparr> = JObject [(''users'', JArray [])]"
  by (simp add: marshal_HogeA_def marshal_PiyoC_def marshal_FugaB_def omitempty_def
      isEmptyValue_slice_def isEmptyValue_ptr_def encSlice_def)

subsection \<open>Copying a value slice\<close>

lemma view_append_nil_hdr:
  "append_nil_hdr st s = (st', c) \<Longrightarrow> view st' c = append_nil (view st s)"
  by (auto simp: append_nil_hdr_def append_nil_def view_def alloc_def Let_def split: if_splits)

text \<open>
  Claim C6. Let \<open>c\<close> be the copy \<open>append([]User(nil), s...)\<close> of a value slice \<open>s\<close>. The
  copy has the elements of \<open>s\<close>, and for every index \<open>i\<close> of the copy and every field
  assignment \<open>f\<close>, after \<open>c[i].F = v\<close> the slice \<open>s\<close> has the contents it had before the
  copy was made, while the copy has the change.
\<close>

theorem copy_then_mutate_keeps_original:
  assumes "valid_hdr st s"
    and "append_nil_hdr st s = (st', c)"
    and "i < len (view st' c)"
  shows "\<exists>st''. assign_elem st' c i f = Inr st''
           \<and> view st'' s = view st s
           \<and> view st' s = view st s
           \<and> elems (view st' c) = elems (view st s)
           \<and> elems (view st'' c) = (elems (view st s))[i := f (elems (view st s) ! i)]"
proof (cases s)
  case NilHdr
  with assms show ?thesis
    by (simp add: append_nil_hdr_def view_def len_def)
next
  case (Hdr a n)
  let ?xs = "take n (mem st a)"
  from assms(1) Hdr have a: "a < fresh st" and n: "n \<le> length (mem st a)"
    by (simp_all add: valid_hdr_def)
  from assms(2,3) Hdr have ne: "?xs \<noteq> []"
    by (auto simp: append_nil_hdr_def view_def len_def Let_def split: if_splits)
  with assms(2) Hdr have c: "c = Hdr (fresh st) (length ?xs)"
    and st': "st' = st\<lparr>mem := (mem st)(fresh st := ?xs), fresh := Suc (fresh st)\<rparr>"
    by (auto simp: append_nil_hdr_def view_def alloc_def Let_def)
  from assms(3) c st' have i: "i < length ?xs"
    by (simp add: view_def len_def)
  from a have neq: "a \<noteq> fresh st" by simp
  show ?thesis
    using i neq n by (simp add: c st' Hdr assign_elem_def view_def min_absorb2)
qed

text \<open>The instance of \<open>main\<close>: \<open>a.Users\<close> holds Alice and \<open>a2.Users[0].Name\<close> is assigned.\<close>

theorem copy_then_mutate_keeps_original_witness:
  "valid_hdr (fst (slice_lit no_arrays [alice_root])) (Hdr 0 1)
   \<and> append_nil_hdr (fst (slice_lit no_arrays [alice_root])) (Hdr 0 1)
       = (\<lparr>mem = (\<lambda>a. [])(0 := [alice_root], 1 := [alice_root]), fresh = 2\<rparr>, Hdr 1 1)
   \<and> 0 < len (view \<lparr>mem = (\<lambda>a. [])(0 := [alice_root], 1 := [alice_root]), fresh = 2\<rparr> (Hdr 1 1))
   \<and> (\<exists>st''. assign_elem \<lparr>mem = (\<lambda>a. [])(0 := [alice_root], 1 := [alice_root]), fresh = 2\<rparr>
                 (Hdr 1 1) 0 (\<lambda>u. u\<lparr>User_root.Name := ''Changed in a2''\<rparr>) = Inr st''
          \<and> view st'' (Hdr 0 1) = Slice [alice_root])"
proof -
  let ?st = "fst (slice_lit no_arrays [alice_root])"
  let ?st' = "\<lparr>mem = (\<lambda>a. [])(0 := [alice_root], 1 := [alice_root]), fresh = 2\<rparr> :: User_root arrays"
  have v: "valid_hdr ?st (Hdr 0 1)"
    by (simp add: slice_lit_def alloc_def no_arrays_def valid_hdr_def)
  have a: "append_nil_hdr ?st (Hdr 0 1) = (?st', Hdr 1 1)"
    by (simp add: slice_lit_def alloc_def no_arrays_def append_nil_hdr_def view_def Let_def)
  have i: "0 < len (view ?st' (Hdr 1 1))"
    by (simp add: view_def len_def)
  have o: "view ?st (Hdr 0 1) = Slice [alice_root]"
    by (simp add: slice_lit_def alloc_def no_arrays_def view_def)
  from copy_then_mutate_keeps_original [OF v a i, of "\<lambda>u. u\<lparr>User_root.Name := ''Changed in a2''\<rparr>"] o
  have "\<exists>st''. assign_elem ?st' (Hdr 1 1) 0 (\<lambda>u. u\<lparr>User_root.Name := ''Changed in a2''\<rparr>) = Inr st''
          \<and> view st'' (Hdr 0 1) = Slice [alice_root]"
    by auto
  with v a i show ?thesis by blast
qed

lemma main_A_copy_result: "main_A_copy = Inr (''Alice'', ''Changed in a2'')"
  by code_simp

subsection \<open>The record generators\<close>

lemma genUsers_loop_spec:
  "i \<le> n \<Longrightarrow> length us = n \<Longrightarrow>
     length (genUsers_loop i n us) = n
     \<and> (\<forall>k<n. genUsers_loop i n us ! k = (if k < i then us ! k else user_at k))"
proof (induction i n us rule: genUsers_loop.induct)
  case (1 i n us)
  show ?case
  proof (cases "i < n")
    case False
    with "1.prems" show ?thesis by (simp add: genUsers_loop.simps)
  next
    case True
    let ?us = "us[i := user_at i]"
    have step: "genUsers_loop i n us = genUsers_loop (Suc i) n ?us"
      using True by (subst genUsers_loop.simps) (simp add: user_at_def)
    have "Suc i \<le> n" "length ?us = n" using True "1.prems" by simp_all
    from "1.IH" [OF True, folded user_at_def, OF this]
    have len: "length (genUsers_loop (Suc i) n ?us) = n"
      and el: "\<forall>k<n. genUsers_loop (Suc i) n ?us ! k = (if k < Suc i then ?us ! k else user_at k)"
      by simp_all
    have "genUsers_loop (Suc i) n ?us ! k = (if k < i then us ! k else user_at k)" if "k < n" for k
      using el that "1.prems" by (cases "k = i") (auto simp: less_Suc_eq)
    with len show ?thesis by (simp only: step) blast
  qed
qed

lemma genPtrUsers_loop_spec:
  "i \<le> n \<Longrightarrow> length us = n \<Longrightarrow> genPtrUsers_loop i n h us = (h', us') \<Longrightarrow>
     length us' = n
     \<and> fresh h' = fresh h + (n - i)
     \<and> (\<forall>a<fresh h. mem h' a = mem h a)
     \<and> (\<forall>k<n. if k < i then us' ! k = us ! k
               else us' ! k = Some (fresh h + (k - i)) \<and> mem h' (fresh h + (k - i)) = user_at k)"
proof (induction i n h us rule: genPtrUsers_loop.induct)
  case (1 i n h us)
  show ?case
  proof (cases "i < n")
    case False
    with "1.prems" show ?thesis by (simp add: genPtrUsers_loop.simps)
  next
    case True
    let ?h1 = "h\<lparr>mem := (mem h)(fresh h := user_at i), fresh := Suc (fresh h)\<rparr>"
    let ?us = "us[i := Some (fresh h)]"
    have al: "alloc h (user_at i) = (?h1, fresh h)" by (simp add: alloc_def)
    have step: "genPtrUsers_loop i n h us = genPtrUsers_loop (Suc i) n ?h1 ?us"
      using True by (subst genPtrUsers_loop.simps) (simp add: user_at_def alloc_def)
    with "1.prems" have run: "genPtrUsers_loop (Suc i) n ?h1 ?us = (h', us')" by simp
    have pre: "Suc i \<le> n" "length ?us = n" using True "1.prems" by simp_all
    have f1: "fresh ?h1 = Suc (fresh h)" by simp
    note ih = "1.IH" [OF True, folded user_at_def, OF refl refl al [symmetric] pre run, unfolded f1]
    from ih have len: "length us' = n" by (rule conjunct1)
    from ih have fr: "fresh h' = Suc (fresh h) + (n - Suc i)" by blast
    from ih have keep: "\<forall>a<Suc (fresh h). mem h' a = mem ?h1 a" by blast
    from ih have el: "\<forall>k<n. if k < Suc i then us' ! k = ?us ! k
               else us' ! k = Some (Suc (fresh h) + (k - Suc i))
                    \<and> mem h' (Suc (fresh h) + (k - Suc i)) = user_at k"
      by blast
    have 2: "fresh h' = fresh h + (n - i)" using fr True by simp
    have 3: "\<forall>a<fresh h. mem h' a = mem h a" using keep by simp
    have 4: "if k < i then us' ! k = us ! k
             else us' ! k = Some (fresh h + (k - i)) \<and> mem h' (fresh h + (k - i)) = user_at k"
      if k: "k < n" for k
    proof (cases "k < i")
      case True
      with el k show ?thesis by simp
    next
      case False
      show ?thesis
      proof (cases "k = i")
        case True
        with el k "1.prems" keep show ?thesis by simp
      next
        case neq: False
        with False have gt: "i < k" by simp
        then have "Suc (fresh h) + (k - Suc i) = fresh h + (k - i)" by simp
        with el k gt show ?thesis by (auto simp: not_less_eq)
      qed
    qed
    from len 2 3 4 show ?thesis by blast
  qed
qed

text \<open>
  Claim C8. For every \<open>n\<close> (a number of records, so not negative), \<open>genUsers(n)\<close> and
  \<open>genPtrUsers(n)\<close> both return, each a slice of exactly \<open>n\<close> elements; the record at
  position \<open>i\<close> is a function of \<open>i\<close> alone, with \<open>ID = i + 1\<close>, \<open>Age = 18 + i mod 50\<close> and
  the name, the address and the city numbered by \<open>i\<close>, \<open>i\<close> and \<open>i mod 10\<close>; and element
  \<open>i\<close> of \<open>genPtrUsers(n)\<close> is a pointer, not \<open>nil\<close>, to a record equal to element \<open>i\<close> of
  \<open>genUsers(n)\<close>, in whatever heap the call is made.
\<close>

theorem generators_agree:
  assumes "0 \<le> n"
  shows "\<exists>us h' ps. genUsers n = Inr (Slice us)
           \<and> genPtrUsers h n = Inr (h', Slice ps)
           \<and> length us = nat n \<and> length ps = nat n
           \<and> (\<forall>i<nat n.
                 us ! i = \<lparr>User_root.ID = i + 1,
                           User_root.Name = ''User_'' @ Itoa (int i),
                           User_root.Age = 18 + i mod 50,
                           User_root.Email = ''user'' @ Itoa (int i) @ ''@example.com'',
                           User_root.City = ''City'' @ Itoa (int (i mod 10))\<rparr>
                 \<and> ps ! i \<noteq> None
                 \<and> deref h' (ps ! i) = Inr (us ! i))"
proof -
  let ?n = "nat n"
  let ?us = "genUsers_loop 0 ?n (replicate ?n zero_User_root)"
  obtain h' ps where run: "genPtrUsers_loop 0 ?n h (replicate ?n None) = (h', ps)"
    by (cases "genPtrUsers_loop 0 ?n h (replicate ?n None)")
  have g: "genUsers n = Inr (Slice ?us)"
    using assms by (simp add: genUsers_def)
  have gp: "genPtrUsers h n = Inr (h', Slice ps)"
    using assms run by (simp add: genPtrUsers_def)
  from genUsers_loop_spec [of 0 ?n "replicate ?n zero_User_root"]
  have lu: "length ?us = ?n" and eu: "\<forall>k<?n. ?us ! k = user_at k"
    by simp_all
  from genPtrUsers_loop_spec [OF _ _ run]
  have lp: "length ps = ?n"
    and ep: "\<forall>k<?n. ps ! k = Some (fresh h + k) \<and> mem h' (fresh h + k) = user_at k"
    by simp_all
  have "\<forall>i<?n. ?us ! i = user_at i \<and> ps ! i \<noteq> None \<and> deref h' (ps ! i) = Inr (?us ! i)"
    using eu ep by (simp add: deref_def)
  with g gp lu lp show ?thesis
    unfolding user_at_def by blast
qed

theorem generators_agree_witness:
  "(0::int) \<le> 3
   \<and> (\<exists>us h' ps. genUsers 3 = Inr (Slice us)
         \<and> genPtrUsers no_users_root 3 = Inr (h', Slice ps)
         \<and> length us = 3 \<and> length ps = 3
         \<and> us ! 2 = \<lparr>User_root.ID = 3, User_root.Name = ''User_2'', User_root.Age = 20,
                     User_root.Email = ''user2@example.com'', User_root.City = ''City2''\<rparr>
         \<and> deref h' (ps ! 2) = Inr (us ! 2))"
proof -
  have n: "(0::int) \<le> 3" by simp
  from generators_agree [OF n, of no_users_root]
  obtain us h' ps where "genUsers 3 = Inr (Slice us)"
    and "genPtrUsers no_users_root 3 = Inr (h', Slice ps)"
    and "length us = nat 3" "length ps = nat 3"
    and el: "\<forall>i<nat 3.
                 us ! i = \<lparr>User_root.ID = i + 1,
                           User_root.Name = ''User_'' @ Itoa (int i),
                           User_root.Age = 18 + i mod 50,
                           User_root.Email = ''user'' @ Itoa (int i) @ ''@example.com'',
                           User_root.City = ''City'' @ Itoa (int (i mod 10))\<rparr>
                 \<and> ps ! i \<noteq> None
                 \<and> deref h' (ps ! i) = Inr (us ! i)"
    by blast
  moreover from el have "us ! 2 = \<lparr>User_root.ID = 3, User_root.Name = ''User_2'', User_root.Age = 20,
                     User_root.Email = ''user2@example.com'', User_root.City = ''City2''\<rparr>
         \<and> deref h' (ps ! 2) = Inr (us ! 2)"
    by (simp add: Itoa_def digits.simps)
  ultimately show ?thesis using n by auto
qed

end
